theory Spec2Isabelle
  imports Main "HOL-Library.Multiset"
begin

section \<open>Restriction-enzyme digestion: the embedded program\<close>

text \<open>
  The program under study is \<^verbatim>\<open>src/python.py\<close>: the classes \<^verbatim>\<open>RestrictionEnzyme\<close> and
  \<^verbatim>\<open>DNADigest\<close>. Python integers are \<^typ>\<open>int\<close>, Python strings are \<^typ>\<open>string\<close>, a raised
  \<^verbatim>\<open>ValueError\<close> is the left summand of a sum type, and every \<^verbatim>\<open>for\<close> loop is a recursive
  function over the list it iterates, carrying the variables the loop body assigns.

  Characters are the 8-bit characters of HOL. \<^verbatim>\<open>str.upper\<close> is modelled on the ASCII
  letters and leaves every other character as it is; no character outside ASCII is mapped
  by Python's \<^verbatim>\<open>upper\<close> to a string over A, T, C, G, nor to a blank, so such a character
  is rejected by the validation in the program and in the model alike.
\<close>

subsection \<open>Strings\<close>

definition upper_char :: "char \<Rightarrow> char" where
  "upper_char c =
     (let n = (of_char c :: nat) in if 97 \<le> n \<and> n \<le> 122 then char_of (n - 32) else c)"

definition upper :: "string \<Rightarrow> string" where
  "upper s = map upper_char s"

text \<open>\<^verbatim>\<open>s.replace(c, '')\<close> for a one-character \<^verbatim>\<open>c\<close>: every occurrence is removed.\<close>

definition replace_empty :: "char \<Rightarrow> string \<Rightarrow> string" where
  "replace_empty c s = filter (\<lambda>x. x \<noteq> c) s"

text \<open>
  The expression \<^verbatim>\<open>dna_seq.upper().replace(' ', '').replace('\n', '').replace('\t', '')\<close>,
  which opens \<^verbatim>\<open>find_restriction_sites\<close>, \<^verbatim>\<open>digest_dna\<close> and \<^verbatim>\<open>multiple_digest\<close>.
\<close>

definition normalize_dna :: "string \<Rightarrow> string" where
  "normalize_dna dna_seq =
     replace_empty (CHR 0x09) (replace_empty (CHR 0x0A) (replace_empty (CHR '' '') (upper dna_seq)))"

text \<open>
  Python slicing \<^verbatim>\<open>xs[a:b]\<close> and \<^verbatim>\<open>xs[a:]\<close> on integers: a negative index counts from the
  end, and every index is clamped to the range of the list.
\<close>

definition slice_index :: "'a list \<Rightarrow> int \<Rightarrow> nat" where
  "slice_index xs i =
     (let n = int (length xs) in nat (if i < 0 then max 0 (n + i) else min i n))"

definition slice :: "'a list \<Rightarrow> int \<Rightarrow> int \<Rightarrow> 'a list" where
  "slice xs a b = take (slice_index xs b - slice_index xs a) (drop (slice_index xs a) xs)"

definition slice_from :: "'a list \<Rightarrow> int \<Rightarrow> 'a list" where
  "slice_from xs a = drop (slice_index xs a) xs"

text \<open>\<^verbatim>\<open>range(n)\<close>: empty when \<^verbatim>\<open>n\<close> is zero or negative.\<close>

definition range :: "int \<Rightarrow> int list" where
  "range n = map int [0..<nat n]"

subsection \<open>RestrictionEnzyme\<close>

record RestrictionEnzyme =
  name :: string
  recognition_seq :: string
  cut_pos_5 :: int
  cut_pos_3 :: int

text \<open>The constructor: the pattern is stored in upper case, an absent 3' cut is the 5' cut.\<close>

definition init_enzyme :: "string \<Rightarrow> string \<Rightarrow> int \<Rightarrow> int option \<Rightarrow> RestrictionEnzyme" where
  "init_enzyme nm rseq c5 c3 =
     \<lparr>name = nm, recognition_seq = upper rseq, cut_pos_5 = c5,
      cut_pos_3 = (case c3 of None \<Rightarrow> c5 | Some c \<Rightarrow> c)\<rparr>"

definition get_overhang_type :: "RestrictionEnzyme \<Rightarrow> string" where
  "get_overhang_type e =
     (if cut_pos_5 e = cut_pos_3 e then ''blunt''
      else if cut_pos_5 e > cut_pos_3 e then ''5' overhang''
      else ''3' overhang'')"

subsection \<open>find_restriction_sites\<close>

text \<open>The two \<^verbatim>\<open>ValueError\<close>s of the program, told apart by their message.\<close>

datatype error =
    InvalidDNA          \<comment> \<open>"DNA sequence contains invalid characters. Use only A, T, C, G."\<close>
  | InvalidRecognition  \<comment> \<open>"Recognition sequence contains invalid characters. Use only A, T, C, G."\<close>

definition valid_bases :: "char set" where
  "valid_bases = set ''ATCG''"

definition all_valid :: "string \<Rightarrow> bool" where
  "all_valid s = list_all (\<lambda>base. base \<in> valid_bases) s"

text \<open>The scanning loop: \<^verbatim>\<open>sites\<close> is the list built so far.\<close>

fun scan_sites :: "string \<Rightarrow> string \<Rightarrow> int list \<Rightarrow> int list \<Rightarrow> int list" where
  "scan_sites dna rseq [] sites = sites"
| "scan_sites dna rseq (i # is) sites =
     scan_sites dna rseq is
       (if slice dna i (i + int (length rseq)) = rseq then sites @ [i] else sites)"

definition find_restriction_sites :: "string \<Rightarrow> string \<Rightarrow> error + int list" where
  "find_restriction_sites dna_seq rseq0 =
     (let dna = normalize_dna dna_seq;
          rseq = upper rseq0
      in if \<not> all_valid dna then Inl InvalidDNA
         else if \<not> all_valid rseq then Inl InvalidRecognition
         else Inr (scan_sites dna rseq (range (int (length dna) - int (length rseq) + 1)) []))"

subsection \<open>digest_dna\<close>

text \<open>
  The dictionary that \<^verbatim>\<open>digest_dna\<close> returns. The key \<^verbatim>\<open>'recognition_sites'\<close> is set on
  one of the two return paths only, so its field is optional: \<open>None\<close> is the absent key.
\<close>

record digest_result =
  enzyme :: string
  recognition_sequence :: string
  cut_sites :: "int list"
  fragments :: "string list"
  fragment_lengths :: "int list"
  overhang_type :: string
  total_sites :: int
  recognition_sites :: "int list option"

text \<open>The loop that keeps the cut positions lying inside the sequence.\<close>

fun cut_loop :: "string \<Rightarrow> int \<Rightarrow> int list \<Rightarrow> int list \<Rightarrow> int list" where
  "cut_loop dna c5 [] cut_positions = cut_positions"
| "cut_loop dna c5 (site # sites) cut_positions =
     (let cut_pos = site + c5
      in cut_loop dna c5 sites
           (if 0 \<le> cut_pos \<and> cut_pos \<le> int (length dna) then cut_positions @ [cut_pos]
            else cut_positions))"

text \<open>
  The fragment loop, shared in shape by both digests: the state is the cursor \<^verbatim>\<open>start\<close> and
  the fragments so far.
\<close>

fun fragment_loop :: "string \<Rightarrow> int list \<Rightarrow> int \<Rightarrow> string list \<Rightarrow> int \<times> string list" where
  "fragment_loop dna [] start frags = (start, frags)"
| "fragment_loop dna (cut_pos # cuts) start frags =
     fragment_loop dna cuts cut_pos
       (if start < cut_pos then frags @ [slice dna start cut_pos] else frags)"

text \<open>The loop followed by the final fragment.\<close>

definition generate_fragments :: "string \<Rightarrow> int list \<Rightarrow> string list" where
  "generate_fragments dna cuts =
     (case fragment_loop dna cuts 0 [] of
        (start, frags) \<Rightarrow>
          if start < int (length dna) then frags @ [slice_from dna start] else frags)"

text \<open>
  \<^verbatim>\<open>digest_dna(dna_seq, recognition_seq, cut_pos_5, cut_pos_3=None, enzyme_name="Custom")\<close>;
  the model takes the enzyme name explicitly.
\<close>

definition digest_dna ::
  "string \<Rightarrow> string \<Rightarrow> int \<Rightarrow> int option \<Rightarrow> string \<Rightarrow> error + digest_result" where
  "digest_dna dna_seq rseq c5 c3opt enzyme_name =
     (let dna = normalize_dna dna_seq
      in case find_restriction_sites dna rseq of
           Inl e \<Rightarrow> Inl e
         | Inr sites \<Rightarrow>
             (let c3 = (case c3opt of None \<Rightarrow> c5 | Some c \<Rightarrow> c);
                  temp_enzyme = init_enzyme enzyme_name rseq c5 (Some c3)
              in if sites = [] then
                   Inr \<lparr>enzyme = enzyme_name,
                        recognition_sequence = rseq,
                        cut_sites = [],
                        fragments = [dna],
                        fragment_lengths = [int (length dna)],
                        overhang_type = get_overhang_type temp_enzyme,
                        total_sites = 0,
                        recognition_sites = None\<rparr>
                 else
                   (let cut_positions = cut_loop dna c5 sites [];
                        frags = generate_fragments dna (sort cut_positions);
                        frags = filter (\<lambda>f. f \<noteq> []) frags
                    in Inr \<lparr>enzyme = enzyme_name,
                            recognition_sequence = rseq,
                            cut_sites = cut_positions,
                            fragments = frags,
                            fragment_lengths = map (\<lambda>f. int (length f)) frags,
                            overhang_type = get_overhang_type temp_enzyme,
                            total_sites = int (length sites),
                            recognition_sites = Some sites\<rparr>)))"

subsection \<open>multiple_digest\<close>

text \<open>
  An element of \<^verbatim>\<open>enzymes_data\<close>: the tuple (name, recognition_seq, cut_pos_5, cut_pos_3),
  whose last component may be missing or \<^verbatim>\<open>None\<close>. \<^verbatim>\<open>multiple_digest\<close> computes a 3' cut
  from it and never reads it again.
\<close>

type_synonym enzyme_data = "string \<times> string \<times> int \<times> int option"

record enzyme_info =
  name :: string
  recognition_seq :: string
  sites :: int
  cut_positions :: "int list"

record multiple_result =
  enzymes :: "enzyme_info list"
  total_cuts :: int
  cut_positions :: "int list"
  fragments :: "string list"
  fragment_lengths :: "int list"

text \<open>The list comprehension of line 171.\<close>

definition enzyme_cuts :: "string \<Rightarrow> int \<Rightarrow> int list \<Rightarrow> int list" where
  "enzyme_cuts dna c5 sts =
     map (\<lambda>site. site + c5)
       (filter (\<lambda>site. 0 \<le> site + c5 \<and> site + c5 \<le> int (length dna)) sts)"

text \<open>
  The loop over \<^verbatim>\<open>enzymes_data\<close>, with the accumulators \<^verbatim>\<open>all_cuts\<close> and \<^verbatim>\<open>enzyme_info\<close>;
  an exception raised by \<^verbatim>\<open>find_restriction_sites\<close> ends the loop and the call.
\<close>

fun enzymes_loop ::
  "string \<Rightarrow> enzyme_data list \<Rightarrow> int list \<Rightarrow> enzyme_info list
     \<Rightarrow> error + (int list \<times> enzyme_info list)" where
  "enzymes_loop dna [] all_cuts info = Inr (all_cuts, info)"
| "enzymes_loop dna ((nm, rseq, c5, c3opt) # rest) all_cuts info =
     (case find_restriction_sites dna rseq of
        Inl e \<Rightarrow> Inl e
      | Inr sts \<Rightarrow>
          (let cuts = enzyme_cuts dna c5 sts
           in enzymes_loop dna rest (all_cuts @ cuts)
                (info @ [\<lparr>name = nm, recognition_seq = rseq,
                          sites = int (length sts), cut_positions = cuts\<rparr>])))"

text \<open>\<^verbatim>\<open>sorted(set(all_cuts))\<close>: the distinct elements in ascending order.\<close>

definition sorted_set :: "int list \<Rightarrow> int list" where
  "sorted_set xs = sort (remdups xs)"

definition multiple_digest :: "string \<Rightarrow> enzyme_data list \<Rightarrow> error + multiple_result" where
  "multiple_digest dna_seq enzymes_data =
     (let dna = normalize_dna dna_seq
      in case enzymes_loop dna enzymes_data [] [] of
           Inl e \<Rightarrow> Inl e
         | Inr (all_cuts0, info) \<Rightarrow>
             (let all_cuts = sorted_set all_cuts0;
                  frags = generate_fragments dna all_cuts
              in Inr \<lparr>enzymes = info,
                      total_cuts = int (length all_cuts),
                      cut_positions = all_cuts,
                      fragments = frags,
                      fragment_lengths = map (\<lambda>f. int (length f)) frags\<rparr>))"

subsection \<open>Notions used to state the properties\<close>

text \<open>
  The sites found for a pattern (none when the search raises), the pattern of a descriptor,
  and the entry that \<^verbatim>\<open>multiple_digest\<close> records for a descriptor.
\<close>

definition found_sites :: "string \<Rightarrow> string \<Rightarrow> int list" where
  "found_sites dna rseq =
     (case find_restriction_sites dna rseq of Inl e \<Rightarrow> [] | Inr sts \<Rightarrow> sts)"

definition enzyme_entry :: "string \<Rightarrow> enzyme_data \<Rightarrow> enzyme_info" where
  "enzyme_entry dna d =
     (case d of (nm, rseq, c5, c3opt) \<Rightarrow>
        \<lparr>name = nm, recognition_seq = rseq,
         sites = int (length (found_sites dna rseq)),
         cut_positions = enzyme_cuts dna c5 (found_sites dna rseq)\<rparr>)"

definition pattern_of :: "enzyme_data \<Rightarrow> string" where
  "pattern_of d = fst (snd d)"

definition cut5_of :: "enzyme_data \<Rightarrow> int" where
  "cut5_of d = fst (snd (snd d))"


text \<open>
  The subscript \<^verbatim>\<open>results['recognition_sites']\<close> that \<^verbatim>\<open>print_digest_results\<close> evaluates on
  every result of \<^verbatim>\<open>digest_dna\<close>: a dictionary without the key raises \<^verbatim>\<open>KeyError\<close>.
\<close>

datatype lookup_error = KeyError

definition get_recognition_sites :: "digest_result \<Rightarrow> lookup_error + int list" where
  "get_recognition_sites results =
     (case recognition_sites results of None \<Rightarrow> Inl KeyError | Some sts \<Rightarrow> Inr sts)"

section \<open>Auxiliary facts\<close>

subsection \<open>Normalisation\<close>

lemma upper_char_idem: "upper_char (upper_char c) = upper_char c"
proof -
  have "of_char c < (256::nat)" by simp
  then show ?thesis
    by (auto simp add: upper_char_def Let_def)
qed

lemma upper_idem: "upper (upper s) = upper s"
  by (simp add: upper_def upper_char_idem)

lemma upper_replace_empty:
  "upper_char c = c \<Longrightarrow> upper (replace_empty c (upper s)) = replace_empty c (upper s)"
  by (induction s) (auto simp add: upper_def replace_empty_def upper_char_idem)

lemma upper_filter_fixed:
  "\<forall>x\<in>set s. upper_char x = x \<Longrightarrow> upper (filter P s) = filter P s"
  by (induction s) (auto simp add: upper_def)

lemma upper_fixed: "\<forall>x\<in>set (upper s). upper_char x = x"
  by (auto simp add: upper_def upper_char_idem)

lemma upper_normalize_dna: "upper (normalize_dna s) = normalize_dna s"
  unfolding normalize_dna_def replace_empty_def
  by (simp add: upper_filter_fixed upper_fixed)

lemma replace_empty_idem: "replace_empty c (replace_empty c s) = replace_empty c s"
  by (simp add: replace_empty_def)

lemma normalize_dna_idem: "normalize_dna (normalize_dna s) = normalize_dna s"
proof -
  have "normalize_dna (normalize_dna s) =
    replace_empty (CHR 0x09) (replace_empty (CHR 0x0A) (replace_empty (CHR '' '') (normalize_dna s)))"
    by (simp add: normalize_dna_def[of "normalize_dna s"] upper_normalize_dna)
  also have "\<dots> = normalize_dna s"
    unfolding normalize_dna_def replace_empty_def filter_filter
    by (rule filter_cong) auto
  finally show ?thesis .
qed

lemma all_valid_upper: "all_valid s \<Longrightarrow> upper s = s"
  by (induction s) (auto simp add: all_valid_def valid_bases_def upper_def upper_char_def)

lemma all_valid_normalize_dna: "all_valid s \<Longrightarrow> normalize_dna s = s"
  by (induction s) (auto simp add: all_valid_def valid_bases_def normalize_dna_def replace_empty_def upper_def upper_char_def)

subsection \<open>Slices, scanning and the fragment loop\<close>

lemma slice_in_range:
  "0 \<le> a \<Longrightarrow> a \<le> b \<Longrightarrow> b \<le> int (length xs) \<Longrightarrow>
   slice xs a b = take (nat b - nat a) (drop (nat a) xs)"
  by (simp add: slice_def slice_index_def Let_def min_def)

lemma slice_from_in_range:
  "0 \<le> a \<Longrightarrow> a \<le> int (length xs) \<Longrightarrow> slice_from xs a = drop (nat a) xs"
  by (simp add: slice_from_def slice_index_def Let_def min_def)

lemma slice_append_drop:
  assumes "0 \<le> a" "a \<le> b" "b \<le> int (length xs)"
  shows "slice xs a b @ drop (nat b) xs = drop (nat a) xs"
proof -
  have "nat a \<le> nat b" using assms by simp
  then have "drop (nat b) xs = drop (nat b - nat a) (drop (nat a) xs)"
    by simp
  then have "take (nat b - nat a) (drop (nat a) xs) @ drop (nat b) xs = drop (nat a) xs"
    by (simp only: append_take_drop_id)
  then show ?thesis
    using assms by (simp only: slice_in_range)
qed

lemma slice_nonempty:
  assumes "0 \<le> a" "a < b" "b \<le> int (length xs)"
  shows "slice xs a b \<noteq> []"
proof -
  define m n where "m = nat a" and "n = nat b"
  have "m < n" "n \<le> length xs" using assms by (simp_all add: m_def n_def)
  then have "take (n - m) (drop m xs) \<noteq> []" by simp
  then have "take (nat b - nat a) (drop (nat a) xs) \<noteq> []" unfolding m_def n_def .
  moreover have "slice xs a b = take (nat b - nat a) (drop (nat a) xs)"
    by (rule slice_in_range) (use assms in simp_all)
  ultimately show ?thesis by simp
qed

lemma scan_sites_filter:
  "scan_sites dna rseq is acc =
     acc @ filter (\<lambda>i. slice dna i (i + int (length rseq)) = rseq) is"
  by (induction "is" arbitrary: acc) auto

lemma range_strict: "sorted_wrt (<) (range n)"
  by (simp add: range_def sorted_wrt_map)

lemma set_range: "set (range n) = {i. 0 \<le> i \<and> i < n}"
proof -
  have "\<And>x. 0 \<le> x \<Longrightarrow> x < n \<Longrightarrow> x \<in> int ` {0..<nat n}"
  proof -
    fix x :: int assume "0 \<le> x" "x < n"
    then have "nat x \<in> {0..<nat n}" "x = int (nat x)" by simp_all
    then show "x \<in> int ` {0..<nat n}" by (rule_tac image_eqI)
  qed
  then show ?thesis by (auto simp add: range_def)
qed

lemma cut_loop_enzyme_cuts:
  "cut_loop dna c5 sts acc = acc @ enzyme_cuts dna c5 sts"
  by (induction sts arbitrary: acc) (auto simp add: enzyme_cuts_def Let_def)

lemma enzyme_cuts_strict:
  "sorted_wrt (<) sts \<Longrightarrow> sorted_wrt (<) (enzyme_cuts dna c5 sts)"
  by (induction sts) (auto simp add: enzyme_cuts_def)

lemma enzyme_cuts_bounds:
  "c \<in> set (enzyme_cuts dna c5 sts) \<Longrightarrow> 0 \<le> c \<and> c \<le> int (length dna)"
  by (auto simp add: enzyme_cuts_def)

lemma fragment_loop_inv:
  assumes "sorted cuts" "\<forall>c\<in>set cuts. start \<le> c \<and> c \<le> int (length dna)"
    "0 \<le> start" "start \<le> int (length dna)"
  shows "\<exists>start' new. fragment_loop dna cuts start frags = (start', frags @ new)
           \<and> start \<le> start' \<and> start' \<le> int (length dna)
           \<and> [] \<notin> set new
           \<and> concat new @ drop (nat start') dna = drop (nat start) dna"
  using assms
proof (induction cuts arbitrary: start frags)
  case Nil
  then show ?case by simp
next
  case (Cons c cuts)
  from Cons.prems have c: "start \<le> c" "c \<le> int (length dna)" "0 \<le> c" by auto
  from Cons.prems have rest: "sorted cuts" "\<forall>d\<in>set cuts. c \<le> d \<and> d \<le> int (length dna)"
    by auto
  let ?frags = "if start < c then frags @ [slice dna start c] else frags"
  from Cons.IH[OF rest c(3) c(2), of ?frags]
  obtain start' new where IH: "fragment_loop dna cuts c ?frags = (start', ?frags @ new)"
    "c \<le> start'" "start' \<le> int (length dna)" "[] \<notin> set new"
    "concat new @ drop (nat start') dna = drop (nat c) dna" by blast
  show ?case
  proof (cases "start < c")
    case True
    have ne: "slice dna start c \<noteq> []"
      using Cons.prems(3) True c(2) by (rule slice_nonempty)
    have cat: "slice dna start c @ drop (nat c) dna = drop (nat start) dna"
      using Cons.prems(3) c(1) c(2) by (rule slice_append_drop)
    show ?thesis
      apply (rule exI[of _ start'], rule exI[of _ "slice dna start c # new"])
      using IH True ne cat c by auto
  next
    case False
    then have "start = c" using c by simp
    then show ?thesis
      apply (intro exI[of _ start'] exI[of _ new])
      using IH by auto
  qed
qed

lemma generate_fragments_partition:
  assumes "sorted cuts" "\<forall>c\<in>set cuts. 0 \<le> c \<and> c \<le> int (length dna)"
  shows "concat (generate_fragments dna cuts) = dna \<and> [] \<notin> set (generate_fragments dna cuts)"
proof -
  from fragment_loop_inv[OF assms(1), of 0 dna "[]"] assms(2)
  obtain start' new where L: "fragment_loop dna cuts 0 [] = (start', new)"
    "0 \<le> start'" "start' \<le> int (length dna)" "[] \<notin> set new"
    "concat new @ drop (nat start') dna = dna" by auto
  show ?thesis
  proof (cases "start' < int (length dna)")
    case True
    then have "slice_from dna start' = drop (nat start') dna" "drop (nat start') dna \<noteq> []"
      using L(2) by (simp_all add: slice_from_in_range)
    then show ?thesis using L True by (simp add: generate_fragments_def)
  next
    case False
    then have "drop (nat start') dna = []" using L(3) by simp
    then show ?thesis using L False by (simp add: generate_fragments_def)
  qed
qed

subsection \<open>The search and the two digests in closed form\<close>

lemma find_restriction_sites_eq:
  "find_restriction_sites s p =
     (if \<not> all_valid (normalize_dna s) then Inl InvalidDNA
      else if \<not> all_valid (upper p) then Inl InvalidRecognition
      else Inr (filter (\<lambda>i. slice (normalize_dna s) i (i + int (length (upper p))) = upper p)
                  (range (int (length (normalize_dna s)) - int (length (upper p)) + 1))))"
  by (simp add: find_restriction_sites_def Let_def scan_sites_filter)

lemma find_restriction_sites_normalize:
  "find_restriction_sites (normalize_dna s) p = find_restriction_sites s p"
  by (simp only: find_restriction_sites_eq normalize_dna_idem)

lemma find_restriction_sites_strict:
  "find_restriction_sites s p = Inr sts \<Longrightarrow> sorted_wrt (<) sts"
  by (auto simp add: find_restriction_sites_eq range_strict sorted_wrt_filter split: if_splits)

lemma found_sites_strict: "sorted_wrt (<) (found_sites dna p)"
  by (auto simp add: found_sites_def find_restriction_sites_strict split: sum.splits)

lemma enzymes_loop_eq:
  "enzymes_loop dna ds acc info =
     (if ds = [] then Inr (acc, info)
      else if \<not> all_valid (normalize_dna dna) then Inl InvalidDNA
      else if \<not> list_all (\<lambda>d. all_valid (upper (pattern_of d))) ds then Inl InvalidRecognition
      else Inr (acc @ concat (map (\<lambda>d. enzyme_info.cut_positions (enzyme_entry dna d)) ds),
                info @ map (enzyme_entry dna) ds))"
proof (induction ds arbitrary: acc info)
  case Nil
  then show ?case by simp
next
  case (Cons d ds)
  obtain nm rseq c5 c3opt where d: "d = (nm, rseq, c5, c3opt)" by (cases d)
  show ?case
  proof (cases "find_restriction_sites dna rseq")
    case (Inl e)
    then show ?thesis
      by (auto simp add: d pattern_of_def find_restriction_sites_eq split: if_splits)
  next
    case (Inr sts)
    then have v: "all_valid (normalize_dna dna)" "all_valid (upper rseq)"
      by (auto simp add: find_restriction_sites_eq split: if_splits)
    have e: "enzyme_entry dna d =
       \<lparr>name = nm, recognition_seq = rseq, sites = int (length sts),
        cut_positions = enzyme_cuts dna c5 sts\<rparr>"
      by (simp add: enzyme_entry_def d found_sites_def Inr)
    show ?thesis
      by (simp add: d Inr Let_def Cons.IH v e[unfolded d] pattern_of_def)
  qed
qed


lemma sorted_set_props:
  "sorted (sorted_set xs)" "distinct (sorted_set xs)" "set (sorted_set xs) = set xs"
  by (simp_all add: sorted_set_def)

lemma enzyme_cuts_Nil [simp]: "enzyme_cuts dna c5 [] = []"
  by (simp add: enzyme_cuts_def)

lemma generate_fragments_sort_cuts:
  "concat (generate_fragments dna (sort (enzyme_cuts dna c5 sts))) = dna"
  "[] \<notin> set (generate_fragments dna (sort (enzyme_cuts dna c5 sts)))"
  using generate_fragments_partition[of "sort (enzyme_cuts dna c5 sts)" dna]
  by (auto dest: enzyme_cuts_bounds)

lemma filter_nonempty_id: "[] \<notin> set xs \<Longrightarrow> filter (\<lambda>f. f \<noteq> []) xs = xs"
  by (induction xs) auto

lemma digest_dna_isl:
  "isl (digest_dna s p c5 c3opt n) \<longleftrightarrow> \<not> all_valid (normalize_dna s) \<or> \<not> all_valid (upper p)"
  by (simp add: digest_dna_def Let_def find_restriction_sites_eq normalize_dna_idem)

lemma digest_dna_Inr:
  assumes "digest_dna s p c5 c3opt n = Inr r"
  shows "all_valid (normalize_dna s)" "all_valid (upper p)"
    and "find_restriction_sites s p = Inr (found_sites s p)"
    and "enzyme r = n" "recognition_sequence r = p"
    and "cut_sites r = enzyme_cuts (normalize_dna s) c5 (found_sites s p)"
    and "digest_result.fragments r =
          (if found_sites s p = [] then [normalize_dna s]
           else generate_fragments (normalize_dna s)
                  (sort (enzyme_cuts (normalize_dna s) c5 (found_sites s p))))"
    and "digest_result.fragment_lengths r = map (\<lambda>f. int (length f)) (digest_result.fragments r)"
    and "overhang_type r =
          get_overhang_type (init_enzyme n p c5 (Some (case c3opt of None \<Rightarrow> c5 | Some c \<Rightarrow> c)))"
    and "total_sites r = int (length (found_sites s p))"
    and "recognition_sites r = (if found_sites s p = [] then None else Some (found_sites s p))"
proof -
  from assms obtain sts where sts: "find_restriction_sites s p = Inr sts"
    by (auto simp add: digest_dna_def find_restriction_sites_normalize Let_def split: sum.splits)
  then show "all_valid (normalize_dna s)" "all_valid (upper p)"
    by (auto simp add: find_restriction_sites_eq split: if_splits)
  have f: "found_sites s p = sts" by (simp add: found_sites_def sts)
  show "find_restriction_sites s p = Inr (found_sites s p)" by (simp add: f sts)
  have r: "r = (if sts = [] then
       \<lparr>enzyme = n, recognition_sequence = p, cut_sites = [],
        fragments = [normalize_dna s], fragment_lengths = [int (length (normalize_dna s))],
        overhang_type = get_overhang_type (init_enzyme n p c5 (Some (case c3opt of None \<Rightarrow> c5 | Some c \<Rightarrow> c))),
        total_sites = 0, recognition_sites = None\<rparr>
     else
       \<lparr>enzyme = n, recognition_sequence = p,
        cut_sites = enzyme_cuts (normalize_dna s) c5 sts,
        fragments = generate_fragments (normalize_dna s) (sort (enzyme_cuts (normalize_dna s) c5 sts)),
        fragment_lengths = map (\<lambda>f. int (length f))
           (generate_fragments (normalize_dna s) (sort (enzyme_cuts (normalize_dna s) c5 sts))),
        overhang_type = get_overhang_type (init_enzyme n p c5 (Some (case c3opt of None \<Rightarrow> c5 | Some c \<Rightarrow> c))),
        total_sites = int (length sts), recognition_sites = Some sts\<rparr>)"
    using assms
    by (simp add: digest_dna_def find_restriction_sites_normalize sts Let_def
        cut_loop_enzyme_cuts filter_nonempty_id generate_fragments_sort_cuts split: if_splits)
  show "enzyme r = n" "recognition_sequence r = p"
    "cut_sites r = enzyme_cuts (normalize_dna s) c5 (found_sites s p)"
    "digest_result.fragments r =
          (if found_sites s p = [] then [normalize_dna s]
           else generate_fragments (normalize_dna s)
                  (sort (enzyme_cuts (normalize_dna s) c5 (found_sites s p))))"
    "digest_result.fragment_lengths r = map (\<lambda>f. int (length f)) (digest_result.fragments r)"
    "overhang_type r =
          get_overhang_type (init_enzyme n p c5 (Some (case c3opt of None \<Rightarrow> c5 | Some c \<Rightarrow> c)))"
    "total_sites r = int (length (found_sites s p))"
    "recognition_sites r = (if found_sites s p = [] then None else Some (found_sites s p))"
    by (simp_all add: r f)
qed

lemma multiple_digest_eq:
  "multiple_digest s ds =
     (if ds \<noteq> [] \<and> \<not> all_valid (normalize_dna s) then Inl InvalidDNA
      else if ds \<noteq> [] \<and> \<not> list_all (\<lambda>d. all_valid (upper (pattern_of d))) ds
        then Inl InvalidRecognition
      else
        Inr \<lparr>enzymes = map (enzyme_entry (normalize_dna s)) ds,
             total_cuts = int (length (sorted_set (concat
                (map (\<lambda>d. enzyme_info.cut_positions (enzyme_entry (normalize_dna s) d)) ds)))),
             cut_positions = sorted_set (concat
                (map (\<lambda>d. enzyme_info.cut_positions (enzyme_entry (normalize_dna s) d)) ds)),
             fragments = generate_fragments (normalize_dna s) (sorted_set (concat
                (map (\<lambda>d. enzyme_info.cut_positions (enzyme_entry (normalize_dna s) d)) ds))),
             fragment_lengths = map (\<lambda>f. int (length f))
               (generate_fragments (normalize_dna s) (sorted_set (concat
                (map (\<lambda>d. enzyme_info.cut_positions (enzyme_entry (normalize_dna s) d)) ds))))\<rparr>)"
  by (simp add: multiple_digest_def enzymes_loop_eq normalize_dna_idem Let_def)

lemma enzyme_entry_bounds:
  "c \<in> set (enzyme_info.cut_positions (enzyme_entry dna d)) \<Longrightarrow> 0 \<le> c \<and> c \<le> int (length dna)"
  by (cases d) (auto simp add: enzyme_entry_def dest: enzyme_cuts_bounds)

lemma slice_window:
  assumes "0 \<le> i" "i + int (length p) \<le> int (length dna)"
  shows "slice dna i (i + int (length p)) = take (length p) (drop (nat i) dna)"
proof -
  have "nat (i + int (length p)) - nat i = length p" using assms by simp
  moreover have "slice dna i (i + int (length p)) =
      take (nat (i + int (length p)) - nat i) (drop (nat i) dna)"
    by (rule slice_in_range) (use assms in simp_all)
  ultimately show ?thesis by simp
qed

lemma found_sites_set:
  assumes "all_valid (normalize_dna s)" "all_valid (upper p)"
  shows "set (found_sites s p) =
     {i. 0 \<le> i \<and> i \<le> int (length (normalize_dna s)) - int (length (upper p))
         \<and> take (length (upper p)) (drop (nat i) (normalize_dna s)) = upper p}"
  using assms
  by (auto simp add: found_sites_def find_restriction_sites_eq set_range slice_window)

lemma enzyme_cuts_filter_map:
  "enzyme_cuts dna c5 sts =
     filter (\<lambda>c. 0 \<le> c \<and> c \<le> int (length dna)) (map (\<lambda>site. site + c5) sts)"
  by (simp add: enzyme_cuts_def filter_map comp_def)

lemma multiple_digest_Inr:
  assumes "multiple_digest s ds = Inr m"
  shows "enzymes m = map (enzyme_entry (normalize_dna s)) ds"
    and "multiple_result.cut_positions m = sorted_set (concat
           (map (\<lambda>d. enzyme_info.cut_positions (enzyme_entry (normalize_dna s) d)) ds))"
    and "total_cuts m = int (length (multiple_result.cut_positions m))"
    and "multiple_result.fragments m =
           generate_fragments (normalize_dna s) (multiple_result.cut_positions m)"
    and "multiple_result.fragment_lengths m =
           map (\<lambda>f. int (length f)) (multiple_result.fragments m)"
  using assms by (auto simp add: multiple_digest_eq split: if_splits)

lemma multiple_digest_cut_bounds:
  assumes "multiple_digest s ds = Inr m" "c \<in> set (multiple_result.cut_positions m)"
  shows "0 \<le> c \<and> c \<le> int (length (normalize_dna s))"
  using assms(2) unfolding multiple_digest_Inr(2)[OF assms(1)] sorted_set_props
  by (auto dest: enzyme_entry_bounds)


lemma multiple_digest_isl:
  "isl (multiple_digest s ds) \<longleftrightarrow>
     ds \<noteq> [] \<and> (\<not> all_valid (normalize_dna s)
                \<or> \<not> list_all (\<lambda>d. all_valid (upper (pattern_of d))) ds)"
  by (simp add: multiple_digest_eq)

lemma found_sites_normalize: "found_sites (normalize_dna s) p = found_sites s p"
  by (simp add: found_sites_def find_restriction_sites_normalize)

lemma enzyme_entry_cuts:
  "set (enzyme_info.cut_positions (enzyme_entry (normalize_dna s) d)) =
     {c. c \<in> (\<lambda>site. site + cut5_of d) ` set (found_sites s (pattern_of d))
         \<and> 0 \<le> c \<and> c \<le> int (length (normalize_dna s))}"
  by (cases d)
    (auto simp add: enzyme_entry_def cut5_of_def pattern_of_def found_sites_normalize
      enzyme_cuts_filter_map)





lemma digest_dna_normalize:
  "digest_dna (normalize_dna s) p c5 c3opt n = digest_dna s p c5 c3opt n"
  by (simp add: digest_dna_def normalize_dna_idem)

lemma multiple_digest_normalize:
  "multiple_digest (normalize_dna s) ds = multiple_digest s ds"
  by (simp add: multiple_digest_def normalize_dna_idem)

lemma overhang_cases:
  "(get_overhang_type (init_enzyme n p c5 (Some c3)) = ''blunt'' \<longleftrightarrow> c5 = c3)
   \<and> (get_overhang_type (init_enzyme n p c5 (Some c3)) = ''5' overhang'' \<longleftrightarrow> c5 > c3)
   \<and> (get_overhang_type (init_enzyme n p c5 (Some c3)) = ''3' overhang'' \<longleftrightarrow> c5 < c3)"
  by (auto simp add: get_overhang_type_def init_enzyme_def)

section \<open>The properties\<close>

subsection \<open>Sequence search\<close>

text \<open>
  C5. When the normalised sequence and the upper-case pattern are over A, T, C, G,
  \<^verbatim>\<open>find_restriction_sites\<close> returns a strictly increasing list whose elements are exactly
  the offsets \<open>i\<close> between 0 and the length of the sequence minus the length of the pattern
  at which the pattern occurs (overlapping occurrences included). A pattern longer than the
  sequence gives the empty list and no error, and the sequence AAAA with the pattern AA
  gives the offsets 0, 1, 2.
\<close>

theorem find_sites_exact:
  "(all_valid (normalize_dna s) \<and> all_valid (upper p) \<longrightarrow>
      (\<exists>sts. find_restriction_sites s p = Inr sts
         \<and> sorted_wrt (<) sts
         \<and> set sts =
             {i. 0 \<le> i \<and> i \<le> int (length (normalize_dna s)) - int (length (upper p))
                 \<and> take (length (upper p)) (drop (nat i) (normalize_dna s)) = upper p}
         \<and> (length (normalize_dna s) < length (upper p) \<longrightarrow> sts = [])))
   \<and> find_restriction_sites ''AAAA'' ''AA'' = Inr [0, 1, 2]"
proof (intro conjI impI)
  assume v: "all_valid (normalize_dna s) \<and> all_valid (upper p)"
  then have r: "find_restriction_sites s p = Inr (found_sites s p)"
    by (simp add: found_sites_def find_restriction_sites_eq)
  have short: "length (normalize_dna s) < length (upper p) \<longrightarrow> found_sites s p = []"
    using v by (simp add: found_sites_def find_restriction_sites_eq range_def)
  show "\<exists>sts. find_restriction_sites s p = Inr sts
         \<and> sorted_wrt (<) sts
         \<and> set sts =
             {i. 0 \<le> i \<and> i \<le> int (length (normalize_dna s)) - int (length (upper p))
                 \<and> take (length (upper p)) (drop (nat i) (normalize_dna s)) = upper p}
         \<and> (length (normalize_dna s) < length (upper p) \<longrightarrow> sts = [])"
    using r short found_sites_strict[of s p] found_sites_set[of s p] v by blast
next
  show "find_restriction_sites ''AAAA'' ''AA'' = Inr [0, 1, 2]" by code_simp
qed

theorem find_sites_exact_witness:
  "all_valid (normalize_dna ''ga at\<newline>tc'') \<and> all_valid (upper ''at'')
   \<and> find_restriction_sites ''ga at\<newline>tc'' ''at'' = Inr [2]
   \<and> set [2] = {i. 0 \<le> i \<and> i \<le> int (length (normalize_dna ''ga at\<newline>tc'')) - int (length (upper ''at''))
                 \<and> take (length (upper ''at'')) (drop (nat i) (normalize_dna ''ga at\<newline>tc'')) = upper ''at''}"
proof -
  have v: "all_valid (normalize_dna ''ga at\<newline>tc'') \<and> all_valid (upper ''at'')" by code_simp
  have e: "find_restriction_sites ''ga at\<newline>tc'' ''at'' = Inr [2]" by code_simp
  from find_sites_exact[of "''ga at\<newline>tc''" "''at''"] v e show ?thesis by auto
qed

text \<open>
  C6, amended. An empty pattern is not rejected by \<^verbatim>\<open>find_restriction_sites\<close>: on a valid
  sequence the search returns every offset from 0 to the length of the sequence, and it
  fails only when the sequence itself is invalid.
\<close>

theorem empty_pattern_all_offsets:
  "find_restriction_sites s [] =
     (if all_valid (normalize_dna s) then Inr (range (int (length (normalize_dna s)) + 1))
      else Inl InvalidDNA)"
proof -
  have "slice (normalize_dna s) i i = []" for i
    by (simp add: slice_def)
  then show ?thesis
    by (simp add: find_restriction_sites_eq upper_def all_valid_def)
qed

theorem empty_pattern_all_offsets_witness:
  "all_valid (normalize_dna ''atg'')
   \<and> find_restriction_sites ''atg'' [] = Inr (range (int (length (normalize_dna ''atg'')) + 1))"
proof -
  have v: "all_valid (normalize_dna ''atg'')" by code_simp
  from empty_pattern_all_offsets[of "''atg''"] v show ?thesis by simp
qed

text \<open>
  C6 as stated fails: on the sequence AT the empty pattern is found at the offsets 0, 1, 2.
\<close>

theorem empty_pattern_counterexample:
  "\<not> isl (find_restriction_sites ''AT'' '''') \<and> find_restriction_sites ''AT'' '''' = Inr [0, 1, 2]"
  by code_simp

subsection \<open>Fragments\<close>




subsection \<open>Invalid characters\<close>




subsection \<open>Several enzymes\<close>



subsection \<open>Cut positions\<close>

text \<open>
  C7. A cut position \<open>site + cut_pos_5\<close> outside the range from 0 to the length of the
  sequence is dropped and raises nothing: with valid characters both digests return, whatever
  the cut offsets are, \<^verbatim>\<open>digest_dna\<close> returns exactly the computed positions that lie in the
  range, \<^verbatim>\<open>multiple_digest\<close> returns exactly the set of such positions over all descriptors,
  and every position reported, merged or per enzyme, lies in the range.
\<close>

theorem cuts_within_bounds:
  "(all_valid (normalize_dna s) \<and> all_valid (upper p) \<longrightarrow> \<not> isl (digest_dna s p c5 c3opt n))
   \<and> (digest_dna s p c5 c3opt n = Inr r \<longrightarrow>
        cut_sites r =
          filter (\<lambda>c. 0 \<le> c \<and> c \<le> int (length (normalize_dna s)))
            (map (\<lambda>site. site + c5) (found_sites s p))
        \<and> (\<forall>c\<in>set (cut_sites r). 0 \<le> c \<and> c \<le> int (length (normalize_dna s))))
   \<and> (all_valid (normalize_dna s) \<and> list_all (\<lambda>d. all_valid (upper (pattern_of d))) ds
        \<longrightarrow> \<not> isl (multiple_digest s ds))
   \<and> (multiple_digest s ds = Inr m \<longrightarrow>
        set (multiple_result.cut_positions m) =
          (\<Union>d\<in>set ds. {c. c \<in> (\<lambda>site. site + cut5_of d) ` set (found_sites s (pattern_of d))
                             \<and> 0 \<le> c \<and> c \<le> int (length (normalize_dna s))})
        \<and> (\<forall>c\<in>set (multiple_result.cut_positions m).
              0 \<le> c \<and> c \<le> int (length (normalize_dna s)))
        \<and> (\<forall>e\<in>set (enzymes m). \<forall>c\<in>set (enzyme_info.cut_positions e).
              0 \<le> c \<and> c \<le> int (length (normalize_dna s))))"
proof (intro conjI impI)
  assume "all_valid (normalize_dna s) \<and> all_valid (upper p)"
  then show "\<not> isl (digest_dna s p c5 c3opt n)" by (simp add: digest_dna_isl)
next
  assume a: "digest_dna s p c5 c3opt n = Inr r"
  show "cut_sites r =
          filter (\<lambda>c. 0 \<le> c \<and> c \<le> int (length (normalize_dna s)))
            (map (\<lambda>site. site + c5) (found_sites s p))"
    by (simp only: digest_dna_Inr(6)[OF a] enzyme_cuts_filter_map)
  show "\<forall>c\<in>set (cut_sites r). 0 \<le> c \<and> c \<le> int (length (normalize_dna s))"
    unfolding digest_dna_Inr(6)[OF a] by (blast dest: enzyme_cuts_bounds)
next
  assume "all_valid (normalize_dna s) \<and> list_all (\<lambda>d. all_valid (upper (pattern_of d))) ds"
  then show "\<not> isl (multiple_digest s ds)" by (simp add: multiple_digest_isl)
next
  assume a: "multiple_digest s ds = Inr m"
  show "set (multiple_result.cut_positions m) =
          (\<Union>d\<in>set ds. {c. c \<in> (\<lambda>site. site + cut5_of d) ` set (found_sites s (pattern_of d))
                             \<and> 0 \<le> c \<and> c \<le> int (length (normalize_dna s))})"
    by (simp add: multiple_digest_Inr(2)[OF a] sorted_set_props enzyme_entry_cuts)
  show "\<forall>c\<in>set (multiple_result.cut_positions m).
              0 \<le> c \<and> c \<le> int (length (normalize_dna s))"
    using multiple_digest_cut_bounds[OF a] by blast
  show "\<forall>e\<in>set (enzymes m). \<forall>c\<in>set (enzyme_info.cut_positions e).
              0 \<le> c \<and> c \<le> int (length (normalize_dna s))"
    unfolding multiple_digest_Inr(1)[OF a] by (auto dest: enzyme_entry_bounds)
qed

theorem cuts_within_bounds_witness:
  "all_valid (normalize_dna ''GGAATTCC'') \<and> all_valid (upper ''GAATTC'')
   \<and> digest_dna ''GGAATTCC'' ''GAATTC'' 10 None ''EcoRI'' =
       Inr \<lparr>enzyme = ''EcoRI'', recognition_sequence = ''GAATTC'', cut_sites = [],
            fragments = [''GGAATTCC''], fragment_lengths = [8], overhang_type = ''blunt'',
            total_sites = 1, recognition_sites = Some [1]\<rparr>
   \<and> [] = filter (\<lambda>c. 0 \<le> c \<and> c \<le> int (length (normalize_dna ''GGAATTCC'')))
            (map (\<lambda>site. site + 10) (found_sites ''GGAATTCC'' ''GAATTC''))
   \<and> multiple_digest ''GGAATTCC'' [(''EcoRI'', ''GAATTC'', 10, None), (''X'', ''AATT'', -1, None)] =
       Inr \<lparr>enzymes = [\<lparr>name = ''EcoRI'', recognition_seq = ''GAATTC'', sites = 1, cut_positions = []\<rparr>,
                     \<lparr>name = ''X'', recognition_seq = ''AATT'', sites = 1, cut_positions = [1]\<rparr>],
            total_cuts = 1, cut_positions = [1], fragments = [''G'', ''GAATTCC''],
            fragment_lengths = [1, 7]\<rparr>
   \<and> (1::int) \<le> int (length (normalize_dna ''GGAATTCC''))"
proof -
  let ?ds = "[(''EcoRI'', ''GAATTC'', 10::int, None::int option), (''X'', ''AATT'', -1, None)]"
  let ?R = "\<lparr>enzyme = ''EcoRI'', recognition_sequence = ''GAATTC'', cut_sites = [],
            fragments = [''GGAATTCC''], fragment_lengths = [8], overhang_type = ''blunt'',
            total_sites = 1, recognition_sites = Some [1]\<rparr>"
  let ?M = "\<lparr>enzymes = [\<lparr>name = ''EcoRI'', recognition_seq = ''GAATTC'', sites = 1, cut_positions = []\<rparr>,
                     \<lparr>name = ''X'', recognition_seq = ''AATT'', sites = 1, cut_positions = [1]\<rparr>],
            total_cuts = 1, cut_positions = [1], fragments = [''G'', ''GAATTCC''],
            fragment_lengths = [1, 7]\<rparr>"
  have v: "all_valid (normalize_dna ''GGAATTCC'') \<and> all_valid (upper ''GAATTC'')" by code_simp
  have d: "digest_dna ''GGAATTCC'' ''GAATTC'' 10 None ''EcoRI'' = Inr ?R" by code_simp
  have m: "multiple_digest ''GGAATTCC'' ?ds = Inr ?M" by code_simp
  note t = cuts_within_bounds[of "''GGAATTCC''" "''GAATTC''" 10 None "''EcoRI''" ?R ?ds ?M]
  from t d have a: "cut_sites ?R =
      filter (\<lambda>c. 0 \<le> c \<and> c \<le> int (length (normalize_dna ''GGAATTCC'')))
        (map (\<lambda>site. site + 10) (found_sites ''GGAATTCC'' ''GAATTC''))"
    by blast
  from t m have b: "\<forall>c\<in>set (multiple_result.cut_positions ?M).
      0 \<le> c \<and> c \<le> int (length (normalize_dna ''GGAATTCC''))"
    by blast
  from v d m a b show ?thesis by simp
qed

text \<open>
  C10. The cut positions that \<^verbatim>\<open>digest_dna\<close> returns are strictly increasing, hence without
  duplicates.
\<close>

theorem single_cuts_strictly_increasing:
  "digest_dna s p c5 c3opt n = Inr r \<Longrightarrow>
     sorted_wrt (<) (cut_sites r) \<and> distinct (cut_sites r)"
proof -
  assume a: "digest_dna s p c5 c3opt n = Inr r"
  have "sorted_wrt (<) (cut_sites r)"
    unfolding digest_dna_Inr(6)[OF a] by (rule enzyme_cuts_strict) (rule found_sites_strict)
  then show ?thesis by (simp add: strict_sorted_iff)
qed

theorem single_cuts_strictly_increasing_witness:
  "digest_dna ''AAAA'' ''AA'' 1 None ''X'' =
     Inr \<lparr>enzyme = ''X'', recognition_sequence = ''AA'', cut_sites = [1, 2, 3],
          fragments = [''A'', ''A'', ''A'', ''A''], fragment_lengths = [1, 1, 1, 1],
          overhang_type = ''blunt'', total_sites = 3, recognition_sites = Some [0, 1, 2]\<rparr>
   \<and> sorted_wrt (<) [1, 2, 3 :: int] \<and> distinct [1, 2, 3 :: int]"
proof -
  let ?R = "\<lparr>enzyme = ''X'', recognition_sequence = ''AA'', cut_sites = [1, 2, 3],
          fragments = [''A'', ''A'', ''A'', ''A''], fragment_lengths = [1, 1, 1, 1],
          overhang_type = ''blunt'', total_sites = 3, recognition_sites = Some [0, 1, 2]\<rparr>"
  have d: "digest_dna ''AAAA'' ''AA'' 1 None ''X'' = Inr ?R" by code_simp
  from single_cuts_strictly_increasing[OF d] d show ?thesis by simp
qed

subsection \<open>Normalisation and overhang\<close>

text \<open>
  C9. Digesting a sequence, with one enzyme or several, gives the same outcome as digesting
  its upper-case, blank-free form \<open>normalize_dna s\<close> (spaces, newlines and tabs removed).
  The overhang reported by \<^verbatim>\<open>digest_dna\<close> is blunt exactly when the 5' and 3' cuts are
  equal, a 5' overhang exactly when the 5' cut is the greater, and a 3' overhang exactly when
  it is the smaller; an absent 3' cut counts as the 5' cut.
\<close>

theorem normalization_commutes:
  "digest_dna (normalize_dna s) p c5 c3opt n = digest_dna s p c5 c3opt n
   \<and> multiple_digest (normalize_dna s) ds = multiple_digest s ds
   \<and> (digest_dna s p c5 c3opt n = Inr r \<longrightarrow>
        (overhang_type r = ''blunt'' \<longleftrightarrow> c5 = (case c3opt of None \<Rightarrow> c5 | Some c \<Rightarrow> c))
        \<and> (overhang_type r = ''5' overhang'' \<longleftrightarrow> c5 > (case c3opt of None \<Rightarrow> c5 | Some c \<Rightarrow> c))
        \<and> (overhang_type r = ''3' overhang'' \<longleftrightarrow> c5 < (case c3opt of None \<Rightarrow> c5 | Some c \<Rightarrow> c)))"
proof (intro conjI impI)
  show "digest_dna (normalize_dna s) p c5 c3opt n = digest_dna s p c5 c3opt n"
    by (rule digest_dna_normalize)
  show "multiple_digest (normalize_dna s) ds = multiple_digest s ds"
    by (rule multiple_digest_normalize)
next
  assume a: "digest_dna s p c5 c3opt n = Inr r"
  note o = digest_dna_Inr(9)[OF a]
  let ?c3 = "case c3opt of None \<Rightarrow> c5 | Some c \<Rightarrow> c"
  from overhang_cases[of n p c5 ?c3]
  show "overhang_type r = ''blunt'' \<longleftrightarrow> c5 = ?c3"
    and "overhang_type r = ''5' overhang'' \<longleftrightarrow> c5 > ?c3"
    and "overhang_type r = ''3' overhang'' \<longleftrightarrow> c5 < ?c3"
    by (simp_all only: o)
qed

theorem normalization_commutes_witness:
  "digest_dna (normalize_dna (''gg aat\<newline>t'' @ CHR 0x09 # ''cc'')) ''gaattc'' 1 (Some 5) ''EcoRI'' =
     digest_dna (''gg aat\<newline>t'' @ CHR 0x09 # ''cc'') ''gaattc'' 1 (Some 5) ''EcoRI''
   \<and> digest_dna (''gg aat\<newline>t'' @ CHR 0x09 # ''cc'') ''gaattc'' 1 (Some 5) ''EcoRI'' =
     Inr \<lparr>enzyme = ''EcoRI'', recognition_sequence = ''gaattc'', cut_sites = [2],
          fragments = [''GG'', ''AATTCC''], fragment_lengths = [2, 6],
          overhang_type = ''3' overhang'', total_sites = 1, recognition_sites = Some [1]\<rparr>
   \<and> (1::int) < 5"
proof -
  let ?R = "\<lparr>enzyme = ''EcoRI'', recognition_sequence = ''gaattc'', cut_sites = [2],
          fragments = [''GG'', ''AATTCC''], fragment_lengths = [2, 6],
          overhang_type = ''3' overhang'', total_sites = 1, recognition_sites = Some [1]\<rparr>"
  have d: "digest_dna (''gg aat\<newline>t'' @ CHR 0x09 # ''cc'') ''gaattc'' 1 (Some 5) ''EcoRI'' = Inr ?R"
    by code_simp
  from normalization_commutes[of "''gg aat\<newline>t'' @ CHR 0x09 # ''cc''" "''gaattc''" 1 "Some 5" "''EcoRI''" "[]" ?R] d
  show ?thesis by simp
qed

subsection \<open>No site found\<close>

text \<open>
  C4. When the search succeeds and finds no site, \<^verbatim>\<open>digest_dna\<close> returns the empty list of
  cut positions, \<^verbatim>\<open>total_sites\<close> 0, the normalised sequence (empty or not) as the single
  fragment, its length as the single fragment length, and the overhang computed from the two
  cuts. The list of sites is not returned empty: the dictionary of this return path has no
  \<^verbatim>\<open>'recognition_sites'\<close> key at all. The sequence ATCGATCG with the pattern GAATTC and
  the 5' cut 1 is such a call.
\<close>

theorem digest_no_sites:
  "find_restriction_sites s p = Inr [] \<Longrightarrow>
     digest_dna s p c5 c3opt n =
       Inr \<lparr>enzyme = n, recognition_sequence = p, cut_sites = [],
            fragments = [normalize_dna s],
            fragment_lengths = [int (length (normalize_dna s))],
            overhang_type =
              (let c3 = (case c3opt of None \<Rightarrow> c5 | Some c \<Rightarrow> c)
               in if c5 = c3 then ''blunt''
                  else if c5 > c3 then ''5' overhang'' else ''3' overhang''),
            total_sites = 0,
            recognition_sites = None\<rparr>"
  by (simp add: digest_dna_def find_restriction_sites_normalize Let_def
      get_overhang_type_def init_enzyme_def)

theorem digest_no_sites_witness:
  "find_restriction_sites ''ATCGATCG'' ''GAATTC'' = Inr []
   \<and> digest_dna ''ATCGATCG'' ''GAATTC'' 1 None ''EcoRI'' =
       Inr \<lparr>enzyme = ''EcoRI'', recognition_sequence = ''GAATTC'', cut_sites = [],
            fragments = [normalize_dna ''ATCGATCG''],
            fragment_lengths = [int (length (normalize_dna ''ATCGATCG''))],
            overhang_type = ''blunt'',
            total_sites = 0,
            recognition_sites = None\<rparr>
   \<and> normalize_dna ''ATCGATCG'' = ''ATCGATCG''"
proof -
  have h: "find_restriction_sites ''ATCGATCG'' ''GAATTC'' = Inr []" by code_simp
  have k: "normalize_dna ''ATCGATCG'' = ''ATCGATCG''" by code_simp
  from digest_no_sites[OF h, of 1 None "''EcoRI''"] h k show ?thesis by simp
qed

text \<open>
  C8. The key \<^verbatim>\<open>'recognition_sites'\<close> is present in the result of \<^verbatim>\<open>digest_dna\<close> exactly when
  some site was found; with \<^verbatim>\<open>total_sites\<close> 0 the key is absent, not bound to the empty list.
  \<^verbatim>\<open>print_digest_results\<close> reads \<^verbatim>\<open>results['recognition_sites']\<close> on every result, which
  raises \<^verbatim>\<open>KeyError\<close> on a result without the key.
\<close>

theorem recognition_sites_key:
  "digest_dna s p c5 c3opt n = Inr r \<Longrightarrow>
     recognition_sites r = (if total_sites r = 0 then None else Some (found_sites s p))
     \<and> (get_recognition_sites r = Inl KeyError \<longleftrightarrow> total_sites r = 0)"
proof -
  assume a: "digest_dna s p c5 c3opt n = Inr r"
  show ?thesis
    by (simp add: digest_dna_Inr(10,11)[OF a] get_recognition_sites_def)
qed

theorem recognition_sites_key_witness:
  "digest_dna ''ATCGATCG'' ''GAATTC'' 1 None ''EcoRI'' =
       Inr \<lparr>enzyme = ''EcoRI'', recognition_sequence = ''GAATTC'', cut_sites = [],
            fragments = [''ATCGATCG''], fragment_lengths = [8], overhang_type = ''blunt'',
            total_sites = 0, recognition_sites = None\<rparr>
   \<and> recognition_sites
        \<lparr>enzyme = ''EcoRI'', recognition_sequence = ''GAATTC'', cut_sites = [],
         fragments = [''ATCGATCG''], fragment_lengths = [8], overhang_type = ''blunt'',
         total_sites = 0, recognition_sites = None\<rparr> \<noteq> Some []
   \<and> get_recognition_sites
        \<lparr>enzyme = ''EcoRI'', recognition_sequence = ''GAATTC'', cut_sites = [],
         fragments = [''ATCGATCG''], fragment_lengths = [8], overhang_type = ''blunt'',
         total_sites = 0, recognition_sites = None\<rparr> = Inl KeyError"
proof -
  let ?R = "\<lparr>enzyme = ''EcoRI'', recognition_sequence = ''GAATTC'', cut_sites = [],
            fragments = [''ATCGATCG''], fragment_lengths = [8], overhang_type = ''blunt'',
            total_sites = 0, recognition_sites = None\<rparr>"
  have d: "digest_dna ''ATCGATCG'' ''GAATTC'' 1 None ''EcoRI'' = Inr ?R" by code_simp
  from recognition_sites_key[OF d] d show ?thesis by simp
qed

end
